theory Spec2Isabelle
  imports Main "HOL-Library.Code_Target_Numeral"
begin

section \<open>Python values, exceptions and built-ins used by \<open>brazil_types/types.py\<close>\<close>

text \<open>
  The two classes \<open>CNPJ\<close> and \<open>CPF\<close> accept an integer or a text (and \<open>validate\<close> also
  \<open>None\<close>). Python integers are unbounded, hence \<open>int\<close>. Texts are \<open>string\<close>: the
  model covers texts of one-byte characters. The conversions between integers and texts
  have no length limit, as in the interpreters the package declares (Python 2.7, 3.4 and
  3.5).
\<close>

datatype pyval = PyNone | PyInt int | PyStr string

text \<open>
  Every exception the module can raise is a value. \<open>IntParseError s\<close> is the
  \<open>ValueError\<close> that \<open>int(s)\<close> raises on a text it cannot read; \<open>ValueError m\<close> is
  the \<open>ValueError\<close> that the module raises itself, with its message \<open>m\<close>.
  \<open>TypeError\<close> is what \<open>format\<close> with the code \<open>d\<close> raises on \<open>None\<close>; \<open>IndexError\<close> is
  an index past the end of a text or a list.
\<close>

datatype pyerror = IntParseError string | ValueError string | TypeError | IndexError

definition rbind :: "pyerror + 'a \<Rightarrow> ('a \<Rightarrow> pyerror + 'b) \<Rightarrow> pyerror + 'b" where
  "rbind m f = (case m of Inl e \<Rightarrow> Inl e | Inr x \<Rightarrow> f x)"

text \<open>A list comprehension whose element expression may raise: the first exception wins.\<close>

fun traverse :: "('a \<Rightarrow> pyerror + 'b) \<Rightarrow> 'a list \<Rightarrow> pyerror + 'b list" where
  "traverse f [] = Inr []"
| "traverse f (x # xs) = rbind (f x) (\<lambda>y. rbind (traverse f xs) (\<lambda>ys. Inr (y # ys)))"

text \<open>The character class \<open>[0-9]\<close>: the code points 48 to 57.\<close>

definition is_digit :: "char \<Rightarrow> bool" where
  "is_digit c = ((48::nat) \<le> of_char c \<and> of_char c \<le> (57::nat))"

definition digit_val :: "char \<Rightarrow> nat" where
  "digit_val c = of_char c - 48"

definition digit_char :: "nat \<Rightarrow> char" where
  "digit_char k = char_of (48 + k)"

text \<open>\<open>re.sub('[^0-9]', '', s)\<close>: every character outside the class is removed.\<close>

definition re_sub_non_digits :: "string \<Rightarrow> string" where
  "re_sub_non_digits s = filter is_digit s"

text \<open>The number a text of decimal digits denotes, most significant digit first.\<close>

definition digits_value :: "string \<Rightarrow> nat" where
  "digits_value s = foldl (\<lambda>a c. 10 * a + digit_val c) 0 s"

text \<open>
  \<open>int(s)\<close> on a text: an optional sign and at least one decimal digit, anything else
  raises. (Python's \<open>int\<close> also accepts surrounding blanks and, from 3.6 on, underscores
  between digits; no text with either reaches \<open>int\<close> in this module: its arguments are
  the result of \<open>re.sub\<close>, a text produced by \<open>format\<close> with \<open>d\<close>, or one character.)
\<close>

definition py_int :: "string \<Rightarrow> pyerror + int" where
  "py_int s =
     (case s of
        [] \<Rightarrow> Inl (IntParseError s)
      | c # r \<Rightarrow>
          if c = CHR ''-'' then
            (if r \<noteq> [] \<and> list_all is_digit r then Inr (- int (digits_value r))
             else Inl (IntParseError s))
          else if c = CHR ''+'' then
            (if r \<noteq> [] \<and> list_all is_digit r then Inr (int (digits_value r))
             else Inl (IntParseError s))
          else if list_all is_digit s then Inr (int (digits_value s))
          else Inl (IntParseError s))"

text \<open>The decimal digits of a natural number, without leading zeros.\<close>

fun dec :: "nat \<Rightarrow> string" where
  "dec n = (if n < 10 then [digit_char n] else dec (n div 10) @ [digit_char (n mod 10)])"

declare dec.simps [simp del]

text \<open>\<open>'{0}'.format(n)\<close> for an integer \<open>n\<close>.\<close>

definition py_str_int :: "int \<Rightarrow> string" where
  "py_str_int n = (if n < 0 then CHR ''-'' # dec (nat (- n)) else dec (nat n))"

definition zfill :: "nat \<Rightarrow> string \<Rightarrow> string" where
  "zfill w s = replicate (w - length s) (CHR ''0'') @ s"

text \<open>
  \<open>'{0:0Wd}'.format(n)\<close> for an integer \<open>n\<close>: the sign first, then zeros up to the
  minimum width \<open>W\<close> (the sign counts), then the digits. A number with more digits is
  rendered in full.
\<close>

definition format_0d :: "nat \<Rightarrow> int \<Rightarrow> string" where
  "format_0d w n =
     (if n < 0 then CHR ''-'' # zfill (w - 1) (dec (nat (- n))) else zfill w (dec (nat n)))"

text \<open>
  \<open>s[i]\<close> on a text or a list, for an index \<open>i \<ge> 0\<close> (the module uses no other):
  an index past the end raises.
\<close>

definition py_index :: "'a list \<Rightarrow> nat \<Rightarrow> pyerror + 'a" where
  "py_index s i = (if i < length s then Inr (s ! i) else Inl IndexError)"

text \<open>\<open>s[i:j]\<close> for \<open>0 \<le> i \<le> j\<close>, and \<open>s[-k:]\<close> for \<open>k > 0\<close>; slices never raise.\<close>

definition py_slice :: "string \<Rightarrow> nat \<Rightarrow> nat \<Rightarrow> string" where
  "py_slice s i j = take (j - i) (drop i s)"

definition py_suffix :: "string \<Rightarrow> nat \<Rightarrow> string" where
  "py_suffix s k = drop (length s - k) s"

section \<open>Class \<open>CPF\<close>\<close>

record CPF =
  u_cpf :: string

text \<open>
  \<open>CPF.clean\<close>: a text is stripped of its non-digits and converted by \<open>int\<close>; the
  integer is rendered by \<open>'{0:011d}'.format\<close>.
\<close>

definition CPF_clean :: "pyval \<Rightarrow> pyerror + string" where
  "CPF_clean cpf =
     (case cpf of
        PyStr s \<Rightarrow> rbind (py_int (re_sub_non_digits s)) (\<lambda>n. Inr (format_0d 11 n))
      | PyInt n \<Rightarrow> Inr (format_0d 11 n)
      | PyNone \<Rightarrow> Inl TypeError)"

text \<open>
  \<open>CPF.validate\<close>: its local function \<open>mod11\<close>, the two list comprehensions that give
  \<open>dig1\<close> and \<open>dig2\<close>, and the comparison of \<open>cpf[-2:]\<close> with \<open>'{0}{1}'.format(dig1, dig2)\<close>.
\<close>

definition CPF_mod11 :: "int \<Rightarrow> int" where
  "CPF_mod11 v = (v mod 11) mod 10"

definition CPF_dig1 :: "string \<Rightarrow> pyerror + int" where
  "CPF_dig1 cpf =
     rbind (traverse (\<lambda>i. rbind (py_index cpf i) (\<lambda>c. rbind (py_int [c])
                        (\<lambda>d. Inr ((int i + 1) * d)))) [0..<9])
       (\<lambda>xs. Inr (CPF_mod11 (sum_list xs)))"

definition CPF_dig2 :: "string \<Rightarrow> pyerror + int" where
  "CPF_dig2 cpf =
     rbind (traverse (\<lambda>i. rbind (py_index cpf i) (\<lambda>c. rbind (py_int [c])
                        (\<lambda>d. Inr (int i * d)))) [1..<10])
       (\<lambda>xs. Inr (CPF_mod11 (sum_list xs)))"

definition CPF_validate :: "pyval \<Rightarrow> pyerror + bool" where
  "CPF_validate cpf =
     (case cpf of
        PyNone \<Rightarrow> Inr False
      | _ \<Rightarrow>
          rbind (CPF_clean cpf) (\<lambda>c.
          rbind (CPF_dig1 c) (\<lambda>dig1.
          rbind (CPF_dig2 c) (\<lambda>dig2.
          Inr (py_suffix c 2 = py_str_int dig1 @ py_str_int dig2)))))"

text \<open>The constructor, the properties \<open>empty\<close> and \<open>valid\<close>, and \<open>format\<close>.\<close>

definition CPF_init :: "pyval \<Rightarrow> pyerror + CPF" where
  "CPF_init cpf = rbind (CPF_clean cpf) (\<lambda>s. Inr \<lparr>u_cpf = s\<rparr>)"

definition CPF_empty :: "CPF \<Rightarrow> pyerror + bool" where
  "CPF_empty self = rbind (py_int (u_cpf self)) (\<lambda>n. Inr (n = 0))"

definition CPF_valid :: "CPF \<Rightarrow> pyerror + bool" where
  "CPF_valid self = CPF_validate (PyStr (u_cpf self))"

definition CPF_format :: "CPF \<Rightarrow> string \<Rightarrow> pyerror + string" where
  "CPF_format self format_spec =
     (if format_spec = [] \<or> format_spec = ''f'' then
        rbind (CPF_clean (PyStr (u_cpf self))) (\<lambda>cpf.
          Inr (py_slice cpf 0 3 @ ''.'' @ py_slice cpf 3 6 @ ''.'' @ py_slice cpf 6 9
               @ ''-'' @ py_slice cpf 9 11))
      else if format_spec = ''r'' then Inr (u_cpf self)
      else Inl (ValueError (''Unknown format code '' @ [CHR 0x27] @ format_spec @ [CHR 0x27]
                            @ '' for object of type '' @ [CHR 0x27] @ ''CPF'' @ [CHR 0x27])))"

section \<open>Class \<open>CNPJ\<close>\<close>

record CNPJ =
  u_cnpj :: string

text \<open>
  \<open>CNPJ.clean\<close>: as for \<open>CPF\<close>, with \<open>'{0:014d}'.format\<close>.
\<close>

definition CNPJ_clean :: "pyval \<Rightarrow> pyerror + string" where
  "CNPJ_clean cnpj =
     (case cnpj of
        PyStr s \<Rightarrow> rbind (py_int (re_sub_non_digits s)) (\<lambda>n. Inr (format_0d 14 n))
      | PyInt n \<Rightarrow> Inr (format_0d 14 n)
      | PyNone \<Rightarrow> Inl TypeError)"

text \<open>
  \<open>CNPJ.validate\<close>: the table \<open>digitos_validacao\<close>, the local function \<open>mod11\<close>, the two
  list comprehensions and the comparison of \<open>cnpj[-2:]\<close> with the two digits as a text.
\<close>

definition digitos_validacao :: "int list" where
  "digitos_validacao = [6, 5, 4, 3, 2, 9, 8, 7, 6, 5, 4, 3, 2]"

definition CNPJ_mod11 :: "int \<Rightarrow> int" where
  "CNPJ_mod11 v = (let value = v mod 11 in if value > 1 then 11 - value else 0)"

definition CNPJ_dig1 :: "string \<Rightarrow> pyerror + int" where
  "CNPJ_dig1 cnpj =
     rbind (traverse (\<lambda>i. rbind (py_index digitos_validacao i) (\<lambda>w.
                            rbind (py_index cnpj (i - 1)) (\<lambda>c. rbind (py_int [c])
                              (\<lambda>d. Inr (w * d))))) [1..<13])
       (\<lambda>xs. Inr (CNPJ_mod11 (sum_list xs)))"

definition CNPJ_dig2 :: "string \<Rightarrow> pyerror + int" where
  "CNPJ_dig2 cnpj =
     rbind (traverse (\<lambda>i. rbind (py_index digitos_validacao i) (\<lambda>w.
                            rbind (py_index cnpj i) (\<lambda>c. rbind (py_int [c])
                              (\<lambda>d. Inr (w * d))))) [0..<13])
       (\<lambda>xs. Inr (CNPJ_mod11 (sum_list xs)))"

definition CNPJ_validate :: "pyval \<Rightarrow> pyerror + bool" where
  "CNPJ_validate cnpj =
     (case cnpj of
        PyNone \<Rightarrow> Inr False
      | _ \<Rightarrow>
          rbind (CNPJ_clean cnpj) (\<lambda>c.
          rbind (CNPJ_dig1 c) (\<lambda>dig1.
          rbind (CNPJ_dig2 c) (\<lambda>dig2.
          Inr (py_suffix c 2 = py_str_int dig1 @ py_str_int dig2)))))"

text \<open>
  The constructor, the properties \<open>empty\<close>, \<open>extensao\<close>, \<open>raiz\<close> and \<open>valid\<close>, and
  \<open>format\<close>.
\<close>

definition CNPJ_init :: "pyval \<Rightarrow> pyerror + CNPJ" where
  "CNPJ_init cnpj = rbind (CNPJ_clean cnpj) (\<lambda>s. Inr \<lparr>u_cnpj = s\<rparr>)"

definition CNPJ_empty :: "CNPJ \<Rightarrow> pyerror + bool" where
  "CNPJ_empty self = rbind (py_int (u_cnpj self)) (\<lambda>n. Inr (n = 0))"

definition CNPJ_extensao :: "CNPJ \<Rightarrow> string" where
  "CNPJ_extensao self = py_slice (u_cnpj self) 8 12"

definition CNPJ_raiz :: "CNPJ \<Rightarrow> string" where
  "CNPJ_raiz self = py_slice (u_cnpj self) 0 8"

definition CNPJ_valid :: "CNPJ \<Rightarrow> pyerror + bool" where
  "CNPJ_valid self = CNPJ_validate (PyStr (u_cnpj self))"

definition CNPJ_format :: "CNPJ \<Rightarrow> string \<Rightarrow> pyerror + string" where
  "CNPJ_format self format_spec =
     (if format_spec = [] \<or> format_spec = ''f'' then
        rbind (CNPJ_clean (PyStr (u_cnpj self))) (\<lambda>cnpj.
          Inr (py_slice cnpj 0 2 @ ''.'' @ py_slice cnpj 2 5 @ ''.'' @ py_slice cnpj 5 8
               @ ''/'' @ py_slice cnpj 8 12 @ ''-'' @ py_slice cnpj 12 14))
      else if format_spec = ''r'' then Inr (u_cnpj self)
      else Inl (ValueError (''Unknown format code '' @ [CHR 0x27] @ format_spec @ [CHR 0x27]
                            @ '' for object of type '' @ [CHR 0x27] @ ''CNPJ'' @ [CHR 0x27])))"

section \<open>The checksum rules as the specification words them\<close>

text \<open>
  The digit at position \<open>i\<close> of a digit-string, and the check digits of the two
  identifiers written as plain weighted sums over positions, with no failure path.
\<close>

definition spec_digit :: "string \<Rightarrow> nat \<Rightarrow> int" where
  "spec_digit d i = int (digit_val (d ! i))"

definition spec_cpf_check1 :: "string \<Rightarrow> int" where
  "spec_cpf_check1 d = ((\<Sum>i\<leftarrow>[0..<9]. (int i + 1) * spec_digit d i) mod 11) mod 10"

definition spec_cpf_check2 :: "string \<Rightarrow> int" where
  "spec_cpf_check2 d = ((\<Sum>i\<leftarrow>[1..<10]. int i * spec_digit d i) mod 11) mod 10"

definition spec_table :: "int list" where
  "spec_table = [6, 5, 4, 3, 2, 9, 8, 7, 6, 5, 4, 3, 2]"

definition spec_reduce :: "int \<Rightarrow> int" where
  "spec_reduce s = (if s mod 11 > 1 then 11 - s mod 11 else 0)"

definition spec_cnpj_check1 :: "string \<Rightarrow> int" where
  "spec_cnpj_check1 d = spec_reduce (\<Sum>i\<leftarrow>[1..<13]. spec_table ! i * spec_digit d (i - 1))"

definition spec_cnpj_check2 :: "string \<Rightarrow> int" where
  "spec_cnpj_check2 d = spec_reduce (\<Sum>i\<leftarrow>[0..<13]. spec_table ! i * spec_digit d i)"

section \<open>Construction inputs\<close>

text \<open>
  The non-negative integer that a construction input denotes: the integer itself, or the
  number written by the digits of a text that holds at least one digit. A negative integer,
  a text without digits and \<open>None\<close> denote none.
\<close>

definition input_number :: "pyval \<Rightarrow> nat option" where
  "input_number v =
     (case v of
        PyInt n \<Rightarrow> if 0 \<le> n then Some (nat n) else None
      | PyStr s \<Rightarrow>
          if re_sub_non_digits s = [] then None else Some (digits_value (re_sub_non_digits s))
      | PyNone \<Rightarrow> None)"

section \<open>Digits, decimal rendering and zero padding\<close>

lemma is_digit_digit_char: "k < 10 \<Longrightarrow> is_digit (digit_char k)"
  by (simp add: is_digit_def digit_char_def)

lemma digit_val_digit_char: "k < 10 \<Longrightarrow> digit_val (digit_char k) = k"
  by (simp add: digit_val_def digit_char_def)

lemma digit_char_digit_val: "is_digit c \<Longrightarrow> digit_char (digit_val c) = c"
  by (simp add: is_digit_def digit_val_def digit_char_def)

lemma digit_val_less: "is_digit c \<Longrightarrow> digit_val c < 10"
  by (auto simp add: is_digit_def digit_val_def)

lemma digit_char_zero: "digit_char 0 = CHR ''0''"
  using digit_char_digit_val [of "CHR ''0''"] by (simp add: is_digit_def digit_val_def)

lemma not_digit_sign: "\<not> is_digit (CHR ''-'')" "\<not> is_digit (CHR ''+'')"
  by (simp_all add: is_digit_def)

lemma dec_digits: "list_all is_digit (dec n)"
  by (induction n rule: dec.induct) (subst dec.simps, simp add: is_digit_digit_char)

lemma dec_nonempty: "dec n \<noteq> []"
  by (subst dec.simps) simp

lemma dec_small: "n < 10 \<Longrightarrow> dec n = [digit_char n]"
  by (subst dec.simps) simp

lemma dec_snoc: "0 < v \<Longrightarrow> k < 10 \<Longrightarrow> dec (10 * v + k) = dec v @ [digit_char k]"
  by (subst dec.simps) simp

lemma digits_value_snoc: "digits_value (s @ [c]) = 10 * digits_value s + digit_val c"
  by (simp add: digits_value_def)

lemma digits_value_single: "digits_value [c] = digit_val c"
  by (simp add: digits_value_def)

lemma digits_value_dec: "digits_value (dec n) = n"
  by (induction n rule: dec.induct)
     (subst dec.simps, simp add: digits_value_snoc digit_val_digit_char digits_value_single)

lemma zfill_length: "length (zfill w s) = max w (length s)"
  by (simp add: zfill_def)

lemma zfill_snoc: "zfill (Suc w) (s @ [c]) = zfill w s @ [c]"
  by (simp add: zfill_def)

lemma zfill_dec_step:
  assumes "k < 10" "0 < w"
  shows "zfill (Suc w) (dec (10 * v + k)) = zfill w (dec v) @ [digit_char k]"
proof (cases "v = 0")
  case True
  with assms show ?thesis
    by (simp add: dec_small zfill_def digit_char_zero replicate_append_same
             flip: replicate_Suc) 
next
  case False
  with assms show ?thesis by (simp add: dec_snoc zfill_snoc)
qed

lemma zfill_dec_digits_value:
  "list_all is_digit s \<Longrightarrow> s \<noteq> [] \<Longrightarrow> zfill (length s) (dec (digits_value s)) = s"
proof (induction s rule: rev_induct)
  case Nil
  then show ?case by simp
next
  case (snoc c r)
  then have c: "is_digit c" and r: "list_all is_digit r" by simp_all
  show ?case
  proof (cases "r = []")
    case True
    with c show ?thesis
      by (simp add: digits_value_single dec_small digit_val_less digit_char_digit_val zfill_def)
  next
    case False
    with snoc r have "zfill (length r) (dec (digits_value r)) = r" by simp
    with c False show ?thesis
      by (simp add: digits_value_snoc zfill_dec_step digit_val_less digit_char_digit_val)
  qed
qed

lemma py_int_digits:
  "list_all is_digit s \<Longrightarrow> s \<noteq> [] \<Longrightarrow> py_int s = Inr (int (digits_value s))"
  by (cases s) (auto simp add: py_int_def not_digit_sign)

lemma py_int_empty: "py_int [] = Inl (IntParseError [])"
  by (simp add: py_int_def)

lemma re_sub_digits: "list_all is_digit s \<Longrightarrow> re_sub_non_digits s = s"
  by (simp add: re_sub_non_digits_def list_all_iff)

lemma format_0d_nat: "format_0d w (int n) = zfill w (dec n)"
  by (simp add: format_0d_def)

lemma CPF_clean_digits:
  "list_all is_digit d \<Longrightarrow> length d = 11 \<Longrightarrow> CPF_clean (PyStr d) = Inr d"
proof -
  assume d: "list_all is_digit d" and l: "length d = 11"
  from l have ne: "d \<noteq> []" by auto
  from zfill_dec_digits_value [OF d ne] l have "zfill 11 (dec (digits_value d)) = d" by simp
  with d ne show ?thesis
    by (simp add: CPF_clean_def re_sub_digits py_int_digits rbind_def format_0d_nat)
qed

lemma CNPJ_clean_digits:
  "list_all is_digit d \<Longrightarrow> length d = 14 \<Longrightarrow> CNPJ_clean (PyStr d) = Inr d"
proof -
  assume d: "list_all is_digit d" and l: "length d = 14"
  from l have ne: "d \<noteq> []" by auto
  from zfill_dec_digits_value [OF d ne] l have "zfill 14 (dec (digits_value d)) = d" by simp
  with d ne show ?thesis
    by (simp add: CNPJ_clean_def re_sub_digits py_int_digits rbind_def format_0d_nat)
qed

lemma traverse_all_Inr:
  "(\<And>x. x \<in> set xs \<Longrightarrow> f x = Inr (g x)) \<Longrightarrow> traverse f xs = Inr (map g xs)"
  by (induction xs) (simp_all add: rbind_def)


section \<open>The check digits computed by \<open>validate\<close>\<close>

lemma rbind_Inr: "rbind (Inr x) f = f x"
  by (simp add: rbind_def)

lemma rbind_Inl: "rbind (Inl e) f = Inl e"
  by (simp add: rbind_def)

lemma py_index_ok: "i < length s \<Longrightarrow> py_index s i = Inr (s ! i)"
  by (simp add: py_index_def)

lemma digit_at: "list_all is_digit d \<Longrightarrow> i < length d \<Longrightarrow> is_digit (d ! i)"
  by (simp add: list_all_length)

lemma py_int_char: "is_digit c \<Longrightarrow> py_int [c] = Inr (int (digit_val c))"
  using py_int_digits [of "[c]"] by (simp add: digits_value_single)

lemma read_digit:
  "list_all is_digit d \<Longrightarrow> i < length d \<Longrightarrow>
   rbind (py_index d i) (\<lambda>c. rbind (py_int [c]) (\<lambda>v. k v)) = k (spec_digit d i)"
  by (simp add: py_index_ok digit_at py_int_char rbind_def spec_digit_def)

lemma CPF_dig1_digits:
  assumes "list_all is_digit d" "9 \<le> length d"
  shows "CPF_dig1 d = Inr (spec_cpf_check1 d)"
proof -
  have "traverse (\<lambda>i. rbind (py_index d i) (\<lambda>c. rbind (py_int [c])
          (\<lambda>v. Inr ((int i + 1) * v)))) [0..<9]
        = Inr (map (\<lambda>i. (int i + 1) * spec_digit d i) [0..<9])"
    using assms by (intro traverse_all_Inr) (simp add: read_digit)
  then show ?thesis
    by (simp add: CPF_dig1_def rbind_def spec_cpf_check1_def CPF_mod11_def)
qed

lemma CPF_dig2_digits:
  assumes "list_all is_digit d" "10 \<le> length d"
  shows "CPF_dig2 d = Inr (spec_cpf_check2 d)"
proof -
  have "traverse (\<lambda>i. rbind (py_index d i) (\<lambda>c. rbind (py_int [c])
          (\<lambda>v. Inr (int i * v)))) [1..<10]
        = Inr (map (\<lambda>i. int i * spec_digit d i) [1..<10])"
    using assms by (intro traverse_all_Inr) (simp add: read_digit)
  then show ?thesis
    by (simp add: CPF_dig2_def rbind_def spec_cpf_check2_def CPF_mod11_def)
qed

lemma table_at: "i < 13 \<Longrightarrow> py_index digitos_validacao i = Inr (spec_table ! i)"
  by (simp add: py_index_def digitos_validacao_def spec_table_def)

lemma CNPJ_mod11_spec: "CNPJ_mod11 v = spec_reduce v"
  by (simp add: CNPJ_mod11_def spec_reduce_def Let_def)

lemma CNPJ_dig1_digits:
  assumes "list_all is_digit d" "12 \<le> length d"
  shows "CNPJ_dig1 d = Inr (spec_cnpj_check1 d)"
proof -
  have "traverse (\<lambda>i. rbind (py_index digitos_validacao i) (\<lambda>w.
          rbind (py_index d (i - 1)) (\<lambda>c. rbind (py_int [c]) (\<lambda>v. Inr (w * v))))) [1..<13]
        = Inr (map (\<lambda>i. spec_table ! i * spec_digit d (i - 1)) [1..<13])"
  proof (intro traverse_all_Inr)
    fix i :: nat
    assume "i \<in> set [1..<13]"
    then have "i < 13" and "i - 1 < length d" using assms(2) by auto
    then show "rbind (py_index digitos_validacao i) (\<lambda>w.
          rbind (py_index d (i - 1)) (\<lambda>c. rbind (py_int [c]) (\<lambda>v. Inr (w * v))))
        = Inr (spec_table ! i * spec_digit d (i - 1))"
      using assms(1) by (simp add: table_at rbind_Inr read_digit)
  qed
  then show ?thesis
    by (simp add: CNPJ_dig1_def rbind_def spec_cnpj_check1_def CNPJ_mod11_spec)
qed

lemma CNPJ_dig2_digits:
  assumes "list_all is_digit d" "13 \<le> length d"
  shows "CNPJ_dig2 d = Inr (spec_cnpj_check2 d)"
proof -
  have "traverse (\<lambda>i. rbind (py_index digitos_validacao i) (\<lambda>w.
          rbind (py_index d i) (\<lambda>c. rbind (py_int [c]) (\<lambda>v. Inr (w * v))))) [0..<13]
        = Inr (map (\<lambda>i. spec_table ! i * spec_digit d i) [0..<13])"
    using assms by (intro traverse_all_Inr) (simp add: table_at rbind_Inr read_digit)
  then show ?thesis
    by (simp add: CNPJ_dig2_def rbind_def spec_cnpj_check2_def CNPJ_mod11_spec)
qed

lemma CPF_mod11_range: "0 \<le> CPF_mod11 v \<and> CPF_mod11 v < 10"
  by (simp add: CPF_mod11_def)

lemma spec_reduce_range: "0 \<le> spec_reduce v \<and> spec_reduce v < 10"
  using pos_mod_bound [of 11 v] pos_mod_sign [of 11 v] by (auto simp add: spec_reduce_def)

lemma spec_cpf_check_range:
  "0 \<le> spec_cpf_check1 d" "spec_cpf_check1 d < 10" "0 \<le> spec_cpf_check2 d" "spec_cpf_check2 d < 10"
  by (simp_all add: spec_cpf_check1_def spec_cpf_check2_def)

lemma spec_cnpj_check_range:
  "0 \<le> spec_cnpj_check1 d" "spec_cnpj_check1 d < 10" "0 \<le> spec_cnpj_check2 d" "spec_cnpj_check2 d < 10"
  by (simp_all add: spec_cnpj_check1_def spec_cnpj_check2_def spec_reduce_range)

lemma py_str_int_digit: "0 \<le> k \<Longrightarrow> k < 10 \<Longrightarrow> py_str_int k = [digit_char (nat k)]"
  by (simp add: py_str_int_def dec_small)

lemma digit_char_eq_iff:
  assumes "is_digit c" "0 \<le> k" "k < 10"
  shows "(c = digit_char (nat k)) = (int (digit_val c) = k)"
proof
  assume "c = digit_char (nat k)"
  with assms show "int (digit_val c) = k" by (simp add: digit_val_digit_char)
next
  assume "int (digit_val c) = k"
  then have "digit_val c = nat k" by simp
  with assms(1) show "c = digit_char (nat k)" using digit_char_digit_val [of c] by simp
qed

lemma py_suffix_two: "length d = Suc (Suc n) \<Longrightarrow> py_suffix d 2 = [d ! n, d ! Suc n]"
  by (auto simp add: py_suffix_def list_eq_iff_nth_eq dest!: less_2_cases)

lemma compare_check_digits:
  assumes "length d = Suc (Suc n)" "list_all is_digit d"
    and "0 \<le> a" "a < 10" "0 \<le> b" "b < 10"
  shows "(py_suffix d 2 = py_str_int a @ py_str_int b)
         = (a = spec_digit d n \<and> b = spec_digit d (Suc n))"
proof -
  have "is_digit (d ! n)" "is_digit (d ! Suc n)" using assms(1,2) by (simp_all add: digit_at)
  then show ?thesis
    using assms by (auto simp add: py_suffix_two py_str_int_digit digit_char_eq_iff spec_digit_def)
qed

text \<open>
  Claim C1. For every text \<open>d\<close> of 11 decimal digits, \<open>CPF.validate(d)\<close> returns, and
  returns true exactly when \<open>((\<Sum>i=0..8. (i+1) * d[i]) mod 11) mod 10 = d[9]\<close> and
  \<open>((\<Sum>i=1..9. i * d[i]) mod 11) mod 10 = d[10]\<close>; the code makes the comparison between
  the last two characters of \<open>d\<close> and the two computed digits rendered as a text of two
  characters.
\<close>

theorem CPF_validate_check_digits:
  assumes "length d = 11" and "list_all is_digit d"
  shows "CPF_validate (PyStr d)
           = Inr (spec_cpf_check1 d = spec_digit d 9 \<and> spec_cpf_check2 d = spec_digit d 10)
         \<and> CPF_validate (PyStr d)
           = Inr (py_suffix d 2 = py_str_int (spec_cpf_check1 d) @ py_str_int (spec_cpf_check2 d))
         \<and> length (py_str_int (spec_cpf_check1 d) @ py_str_int (spec_cpf_check2 d)) = 2"
proof -
  have l: "length d = Suc (Suc 9)" using assms(1) by simp
  have v: "CPF_validate (PyStr d)
           = Inr (py_suffix d 2 = py_str_int (spec_cpf_check1 d) @ py_str_int (spec_cpf_check2 d))"
    using assms
    by (simp add: CPF_validate_def CPF_clean_digits CPF_dig1_digits CPF_dig2_digits rbind_def)
  have c: "(py_suffix d 2 = py_str_int (spec_cpf_check1 d) @ py_str_int (spec_cpf_check2 d))
           = (spec_cpf_check1 d = spec_digit d 9 \<and> spec_cpf_check2 d = spec_digit d (Suc 9))"
    by (rule compare_check_digits [OF l assms(2)]) (rule spec_cpf_check_range)+
  have n: "length (py_str_int (spec_cpf_check1 d) @ py_str_int (spec_cpf_check2 d)) = 2"
    by (simp add: py_str_int_digit spec_cpf_check_range)
  from v c n show ?thesis by simp
qed

theorem CPF_validate_check_digits_witness:
  "CPF_validate (PyStr ''58119443659'') = Inr True
   \<and> CPF_validate (PyStr ''58119443650'') = Inr False"
proof -
  have a: "list_all is_digit ''58119443659''" "list_all is_digit ''58119443650''"
    by (simp_all add: is_digit_def)
  have b: "spec_cpf_check1 ''58119443659'' = 5" "spec_cpf_check2 ''58119443659'' = 9"
     "spec_cpf_check1 ''58119443650'' = 5" "spec_cpf_check2 ''58119443650'' = 9"
    by (simp_all add: spec_cpf_check1_def spec_cpf_check2_def spec_digit_def digit_val_def upt_rec)
  have c: "spec_digit ''58119443659'' 9 = 5" "spec_digit ''58119443659'' 10 = 9"
    "spec_digit ''58119443650'' 9 = 5" "spec_digit ''58119443650'' 10 = 0"
    by (simp_all add: spec_digit_def digit_val_def)
  show ?thesis
    using CPF_validate_check_digits [OF _ a(1)] CPF_validate_check_digits [OF _ a(2)]
    by (simp add: b c)
qed

text \<open>
  Claim C2. For every text \<open>d\<close> of 14 decimal digits, \<open>CNPJ.validate(d)\<close> returns, and
  returns true exactly when, with the table \<open>[6,5,4,3,2,9,8,7,6,5,4,3,2]\<close>, the sum of
  \<open>table[i] * d[i-1]\<close> for \<open>i\<close> in 1..12 and the sum of \<open>table[i] * d[i]\<close> for \<open>i\<close> in
  0..12, each reduced by \<open>v = sum mod 11\<close>, then \<open>11 - v\<close> if \<open>v > 1\<close> and 0 otherwise, equal
  \<open>d[12]\<close> and \<open>d[13]\<close>.
\<close>

theorem CNPJ_validate_check_digits:
  assumes "length d = 14" and "list_all is_digit d"
  shows "CNPJ_validate (PyStr d)
           = Inr (spec_cnpj_check1 d = spec_digit d 12 \<and> spec_cnpj_check2 d = spec_digit d 13)
         \<and> CNPJ_validate (PyStr d)
           = Inr (py_suffix d 2 = py_str_int (spec_cnpj_check1 d) @ py_str_int (spec_cnpj_check2 d))"
proof -
  have l: "length d = Suc (Suc 12)" using assms(1) by simp
  have v: "CNPJ_validate (PyStr d)
           = Inr (py_suffix d 2 = py_str_int (spec_cnpj_check1 d) @ py_str_int (spec_cnpj_check2 d))"
    using assms
    by (simp add: CNPJ_validate_def CNPJ_clean_digits CNPJ_dig1_digits CNPJ_dig2_digits rbind_def)
  have c: "(py_suffix d 2 = py_str_int (spec_cnpj_check1 d) @ py_str_int (spec_cnpj_check2 d))
           = (spec_cnpj_check1 d = spec_digit d 12 \<and> spec_cnpj_check2 d = spec_digit d (Suc 12))"
    by (rule compare_check_digits [OF l assms(2)]) (rule spec_cnpj_check_range)+
  from v c show ?thesis by simp
qed

theorem CNPJ_validate_check_digits_witness:
  "CNPJ_validate (PyStr ''58414462000135'') = Inr True
   \<and> CNPJ_validate (PyStr ''58414462000136'') = Inr False"
proof -
  have a: "list_all is_digit ''58414462000135''" "list_all is_digit ''58414462000136''"
    by (simp_all add: is_digit_def)
  have b: "spec_cnpj_check1 ''58414462000135'' = 3" "spec_cnpj_check2 ''58414462000135'' = 5"
     "spec_cnpj_check1 ''58414462000136'' = 3" "spec_cnpj_check2 ''58414462000136'' = 5"
    by (simp_all add: spec_cnpj_check1_def spec_cnpj_check2_def spec_reduce_def spec_table_def
          spec_digit_def digit_val_def upt_rec)
  have c: "spec_digit ''58414462000135'' 12 = 3" "spec_digit ''58414462000135'' 13 = 5"
    "spec_digit ''58414462000136'' 12 = 3" "spec_digit ''58414462000136'' 13 = 6"
    by (simp_all add: spec_digit_def digit_val_def)
  show ?thesis
    using CNPJ_validate_check_digits [OF _ a(1)] CNPJ_validate_check_digits [OF _ a(2)]
    by (simp add: b c)
qed

section \<open>Absent values\<close>

text \<open>
  Claim C8. \<open>CNPJ.validate(None)\<close> returns false and raises nothing.
\<close>

theorem CNPJ_validate_None: "CNPJ_validate PyNone = Inr False"
  by (simp add: CNPJ_validate_def)

text \<open>
  Claim C10. \<open>CPF.validate(None)\<close> returns false and raises nothing.
\<close>

theorem CPF_validate_None: "CPF_validate PyNone = Inr False"
  by (simp add: CPF_validate_def)

section \<open>Default values\<close>

text \<open>
  Claim C6. The default-constructed values \<open>CPF()\<close> and \<open>CNPJ()\<close> (the argument defaults
  to the integer 0) hold the all-zero digit-string, their \<open>empty\<close> is true and their
  \<open>valid\<close> is true; both check digits computed from the all-zero digit-string are 0.
\<close>

theorem default_values_empty_and_valid:
  "CPF_init (PyInt 0) = Inr \<lparr>u_cpf = ''00000000000''\<rparr>
   \<and> CPF_empty \<lparr>u_cpf = ''00000000000''\<rparr> = Inr True
   \<and> CPF_valid \<lparr>u_cpf = ''00000000000''\<rparr> = Inr True
   \<and> CPF_dig1 ''00000000000'' = Inr 0
   \<and> CPF_dig2 ''00000000000'' = Inr 0
   \<and> CNPJ_init (PyInt 0) = Inr \<lparr>u_cnpj = ''00000000000000''\<rparr>
   \<and> CNPJ_empty \<lparr>u_cnpj = ''00000000000000''\<rparr> = Inr True
   \<and> CNPJ_valid \<lparr>u_cnpj = ''00000000000000''\<rparr> = Inr True
   \<and> CNPJ_dig1 ''00000000000000'' = Inr 0
   \<and> CNPJ_dig2 ''00000000000000'' = Inr 0"
  by (intro conjI) code_simp+

section \<open>Texts without digits\<close>

lemma re_sub_no_digits: "list_all (\<lambda>c. \<not> is_digit c) s \<Longrightarrow> re_sub_non_digits s = []"
  by (simp add: re_sub_non_digits_def list_all_iff)

text \<open>
  Claim C3 says that \<open>clean\<close> of a text with no digit returns the all-zero digit-string.
  It does not: \<open>re.sub\<close> leaves the empty text and \<open>int('')\<close> raises.
\<close>

theorem clean_no_digits_counterexample:
  "CPF_clean (PyStr ''..-'') = Inl (IntParseError [])
   \<and> CPF_clean (PyStr ''..-'') \<noteq> Inr ''00000000000''
   \<and> CNPJ_clean (PyStr ''../-'') = Inl (IntParseError [])
   \<and> CNPJ_clean (PyStr ''../-'') \<noteq> Inr ''00000000000000''"
  by (intro conjI) code_simp+

text \<open>
  Claim C3, amended. For every text containing no digit character, \<open>clean\<close> (of both
  \<open>CPF\<close> and \<open>CNPJ\<close>) strips every character and the conversion of the empty remainder
  to an integer raises; no digit-string is returned.
\<close>

theorem clean_no_digits_raises:
  assumes "list_all (\<lambda>c. \<not> is_digit c) s"
  shows "re_sub_non_digits s = []
         \<and> CPF_clean (PyStr s) = Inl (IntParseError [])
         \<and> CNPJ_clean (PyStr s) = Inl (IntParseError [])"
  using assms
  by (simp add: re_sub_no_digits CPF_clean_def CNPJ_clean_def py_int_empty rbind_Inl)

theorem clean_no_digits_raises_witness:
  "list_all (\<lambda>c. \<not> is_digit c) ''abc''
   \<and> CPF_clean (PyStr ''abc'') = Inl (IntParseError [])
   \<and> CNPJ_clean (PyStr ''abc'') = Inl (IntParseError [])"
proof -
  have h: "list_all (\<lambda>c. \<not> is_digit c) ''abc''" by (simp add: is_digit_def)
  from clean_no_digits_raises [OF h] h show ?thesis by simp
qed

section \<open>Stored digit-strings\<close>

lemma length_format_0d: "w \<le> length (format_0d w n)"
  by (auto simp add: format_0d_def zfill_length)

lemma CNPJ_init_stored: "CNPJ_init v = Inr x \<Longrightarrow> \<exists>n. u_cnpj x = format_0d 14 n"
  by (cases v) (auto simp add: CNPJ_init_def CNPJ_clean_def rbind_def split: sum.splits)

lemma CPF_init_stored: "CPF_init v = Inr x \<Longrightarrow> \<exists>n. u_cpf x = format_0d 11 n"
  by (cases v) (auto simp add: CPF_init_def CPF_clean_def rbind_def split: sum.splits)

lemma CNPJ_init_length: "CNPJ_init v = Inr x \<Longrightarrow> 14 \<le> length (u_cnpj x)"
  using CNPJ_init_stored [of v x] length_format_0d [of 14] by auto

lemma CPF_init_length: "CPF_init v = Inr x \<Longrightarrow> 11 \<le> length (u_cpf x)"
  using CPF_init_stored [of v x] length_format_0d [of 11] by auto

lemma py_slice_nth: "j \<le> length s \<Longrightarrow> py_slice s i j = map (\<lambda>k. s ! k) [i..<j]"
  by (auto simp add: py_slice_def list_eq_iff_nth_eq)

text \<open>
  Claim C9. For every constructed \<open>CNPJ\<close>, \<open>raiz\<close> is exactly the first 8 characters of
  the stored digit-string and \<open>extensao\<close> exactly its characters at positions 8 to 11,
  four characters, with no validation; \<open>CNPJ(58414462000135).raiz\<close> is \<open>58414462\<close> and
  its \<open>extensao\<close> is \<open>0001\<close>.
\<close>

theorem CNPJ_raiz_extensao:
  assumes "CNPJ_init v = Inr x"
  shows "CNPJ_raiz x = take 8 (u_cnpj x) \<and> length (CNPJ_raiz x) = 8
         \<and> CNPJ_extensao x = map (\<lambda>i. u_cnpj x ! i) [8..<12] \<and> length (CNPJ_extensao x) = 4
         \<and> rbind (CNPJ_init (PyInt 58414462000135)) (\<lambda>c. Inr (CNPJ_raiz c)) = Inr ''58414462''
         \<and> rbind (CNPJ_init (PyInt 58414462000135)) (\<lambda>c. Inr (CNPJ_extensao c)) = Inr ''0001''"
proof -
  have l: "14 \<le> length (u_cnpj x)" using assms by (rule CNPJ_init_length)
  have r: "CNPJ_raiz x = take 8 (u_cnpj x)" by (simp add: CNPJ_raiz_def py_slice_def)
  have rl: "length (CNPJ_raiz x) = 8" using l by (simp add: r)
  have e: "CNPJ_extensao x = map (\<lambda>i. u_cnpj x ! i) [8..<12]"
    using l by (simp add: CNPJ_extensao_def py_slice_nth)
  have el: "length (CNPJ_extensao x) = 4" by (simp add: e)
  have c1: "rbind (CNPJ_init (PyInt 58414462000135)) (\<lambda>c. Inr (CNPJ_raiz c)) = Inr ''58414462''"
    by code_simp
  have c2: "rbind (CNPJ_init (PyInt 58414462000135)) (\<lambda>c. Inr (CNPJ_extensao c)) = Inr ''0001''"
    by code_simp
  from r rl e el c1 c2 show ?thesis by simp
qed

theorem CNPJ_raiz_extensao_witness:
  "CNPJ_init (PyInt 58414462000135) = Inr \<lparr>u_cnpj = ''58414462000135''\<rparr>
   \<and> CNPJ_raiz \<lparr>u_cnpj = ''58414462000135''\<rparr> = ''58414462''
   \<and> CNPJ_extensao \<lparr>u_cnpj = ''58414462000135''\<rparr> = ''0001''"
proof -
  have h: "CNPJ_init (PyInt 58414462000135) = Inr \<lparr>u_cnpj = ''58414462000135''\<rparr>"
    by code_simp
  from CNPJ_raiz_extensao [OF h] h show ?thesis by (simp add: upt_rec)
qed

section \<open>Formatting\<close>

lemma digits_value_replicate0: "digits_value (replicate k (CHR ''0'') @ s) = digits_value s"
proof -
  have "foldl (\<lambda>a c. 10 * a + digit_val c) 0 (replicate k (CHR ''0'')) = 0"
    by (induction k) (simp_all add: digit_val_def)
  then show ?thesis by (simp add: digits_value_def)
qed

lemma digits_value_zfill: "digits_value (zfill w s) = digits_value s"
  by (simp add: zfill_def digits_value_replicate0)

lemma zfill_digits: "list_all is_digit s \<Longrightarrow> list_all is_digit (zfill w s)"
  by (auto simp add: zfill_def list_all_iff is_digit_def)

lemma zfill_nonempty: "s \<noteq> [] \<Longrightarrow> zfill w s \<noteq> []"
  by (simp add: zfill_def)

lemma re_sub_format_0d:
  "re_sub_non_digits (format_0d w n) = zfill (if n < 0 then w - 1 else w) (dec (nat \<bar>n\<bar>))"
  using zfill_digits [OF dec_digits]
  by (simp add: format_0d_def re_sub_non_digits_def not_digit_sign list_all_iff)

lemma py_int_re_sub_format_0d: "py_int (re_sub_non_digits (format_0d w n)) = Inr \<bar>n\<bar>"
  by (simp add: re_sub_format_0d py_int_digits zfill_digits dec_digits zfill_nonempty dec_nonempty
        digits_value_zfill digits_value_dec)

lemma CPF_clean_stored: "CPF_clean (PyStr (format_0d w n)) = Inr (format_0d 11 \<bar>n\<bar>)"
  by (simp add: CPF_clean_def py_int_re_sub_format_0d rbind_Inr)

lemma CNPJ_clean_stored: "CNPJ_clean (PyStr (format_0d w n)) = Inr (format_0d 14 \<bar>n\<bar>)"
  by (simp add: CNPJ_clean_def py_int_re_sub_format_0d rbind_Inr)

text \<open>
  Claim C7. For every format code other than the empty one, \<open>f\<close> and \<open>r\<close>, \<open>format\<close> (of a
  \<open>CPF\<close> and of a \<open>CNPJ\<close>) raises \<open>ValueError\<close> with the message
  \<open>Unknown format code '<code>' for object of type '<class name>'\<close>; for the codes empty,
  \<open>f\<close> and \<open>r\<close> it returns a text, on every constructed value.
\<close>

theorem format_spec_codes:
  assumes "CPF_init v = Inr x" and "CNPJ_init v' = Inr y"
  shows "(spec \<noteq> [] \<and> spec \<noteq> ''f'' \<and> spec \<noteq> ''r'' \<longrightarrow>
            CPF_format x spec =
              Inl (ValueError (''Unknown format code '' @ [CHR 0x27] @ spec @ [CHR 0x27]
                     @ '' for object of type '' @ [CHR 0x27] @ ''CPF'' @ [CHR 0x27]))
          \<and> CNPJ_format y spec =
              Inl (ValueError (''Unknown format code '' @ [CHR 0x27] @ spec @ [CHR 0x27]
                     @ '' for object of type '' @ [CHR 0x27] @ ''CNPJ'' @ [CHR 0x27])))
         \<and> (spec = [] \<or> spec = ''f'' \<or> spec = ''r'' \<longrightarrow>
              (\<exists>s. CPF_format x spec = Inr s) \<and> (\<exists>s. CNPJ_format y spec = Inr s))"
proof -
  obtain n where n: "u_cpf x = format_0d 11 n" using CPF_init_stored [OF assms(1)] by blast
  obtain m where m: "u_cnpj y = format_0d 14 m" using CNPJ_init_stored [OF assms(2)] by blast
  have a: "spec \<noteq> [] \<and> spec \<noteq> ''f'' \<and> spec \<noteq> ''r'' \<longrightarrow>
            CPF_format x spec =
              Inl (ValueError (''Unknown format code '' @ [CHR 0x27] @ spec @ [CHR 0x27]
                     @ '' for object of type '' @ [CHR 0x27] @ ''CPF'' @ [CHR 0x27]))
          \<and> CNPJ_format y spec =
              Inl (ValueError (''Unknown format code '' @ [CHR 0x27] @ spec @ [CHR 0x27]
                     @ '' for object of type '' @ [CHR 0x27] @ ''CNPJ'' @ [CHR 0x27]))"
    by (simp add: CPF_format_def CNPJ_format_def)
  have b: "spec = [] \<or> spec = ''f'' \<or> spec = ''r'' \<longrightarrow> (\<exists>s. CPF_format x spec = Inr s)"
    by (auto simp add: CPF_format_def n CPF_clean_stored rbind_Inr)
  have c: "spec = [] \<or> spec = ''f'' \<or> spec = ''r'' \<longrightarrow> (\<exists>s. CNPJ_format y spec = Inr s)"
    by (auto simp add: CNPJ_format_def m CNPJ_clean_stored rbind_Inr)
  from a b c show ?thesis by blast
qed

theorem format_spec_codes_witness:
  "CPF_format \<lparr>u_cpf = ''58119443659''\<rparr> ''x'' = Inl (ValueError (''Unknown format code 'x' for object of type 'CPF'' @ [CHR 0x27]))
   \<and> CNPJ_format \<lparr>u_cnpj = ''58414462000135''\<rparr> ''x'' = Inl (ValueError (''Unknown format code 'x' for object of type 'CNPJ'' @ [CHR 0x27]))
   \<and> (\<exists>s. CPF_format \<lparr>u_cpf = ''58119443659''\<rparr> ''f'' = Inr s)
   \<and> (\<exists>s. CNPJ_format \<lparr>u_cnpj = ''58414462000135''\<rparr> ''r'' = Inr s)"
proof -
  have h1: "CPF_init (PyInt 58119443659) = Inr \<lparr>u_cpf = ''58119443659''\<rparr>" by code_simp
  have h2: "CNPJ_init (PyInt 58414462000135) = Inr \<lparr>u_cnpj = ''58414462000135''\<rparr>" by code_simp
  from format_spec_codes [OF h1 h2, of "''x''"] format_spec_codes [OF h1 h2, of "''f''"]
    format_spec_codes [OF h1 h2, of "''r''"]
  show ?thesis by simp
qed

section \<open>Cleaning the formatted text\<close>

lemma py_slice_join: "i \<le> j \<Longrightarrow> j \<le> k \<Longrightarrow> py_slice s i j @ py_slice s j k = py_slice s i k"
proof -
  assume a: "i \<le> j" "j \<le> k"
  then have "k - i = (j - i) + (k - j)" by simp
  then have "take (k - i) (drop i s) = take (j - i) (drop i s) @ take (k - j) (drop (j - i) (drop i s))"
    by (simp only: take_add)
  with a show ?thesis by (simp add: py_slice_def)
qed

lemma py_slice_all: "py_slice s 0 (length s) = s"
  by (simp add: py_slice_def)

lemma py_slice_digits: "list_all is_digit s \<Longrightarrow> list_all is_digit (py_slice s i j)"
  by (auto simp add: py_slice_def list_all_iff dest: in_set_takeD in_set_dropD)

lemma re_sub_append: "re_sub_non_digits (s @ t) = re_sub_non_digits s @ re_sub_non_digits t"
  by (simp add: re_sub_non_digits_def)

lemma re_sub_punct:
  "re_sub_non_digits ''.'' = []" "re_sub_non_digits ''-'' = []" "re_sub_non_digits ''/'' = []"
  by (simp_all add: re_sub_non_digits_def is_digit_def)

lemma re_sub_CPF_formatted:
  assumes "list_all is_digit u" and "length u = 11"
  shows "re_sub_non_digits (py_slice u 0 3 @ ''.'' @ py_slice u 3 6 @ ''.'' @ py_slice u 6 9
           @ ''-'' @ py_slice u 9 11) = u"
proof -
  have "re_sub_non_digits (py_slice u 0 3 @ ''.'' @ py_slice u 3 6 @ ''.'' @ py_slice u 6 9
           @ ''-'' @ py_slice u 9 11)
        = py_slice u 0 3 @ py_slice u 3 6 @ py_slice u 6 9 @ py_slice u 9 11"
    using assms(1) by (simp only: re_sub_append re_sub_punct re_sub_digits py_slice_digits append_Nil)
  also have "\<dots> = py_slice u 0 (length u)"
    by (simp add: py_slice_join assms(2))
  finally show ?thesis by (simp add: py_slice_all)
qed

lemma re_sub_CNPJ_formatted:
  assumes "list_all is_digit u" and "length u = 14"
  shows "re_sub_non_digits (py_slice u 0 2 @ ''.'' @ py_slice u 2 5 @ ''.'' @ py_slice u 5 8
           @ ''/'' @ py_slice u 8 12 @ ''-'' @ py_slice u 12 14) = u"
proof -
  have "re_sub_non_digits (py_slice u 0 2 @ ''.'' @ py_slice u 2 5 @ ''.'' @ py_slice u 5 8
           @ ''/'' @ py_slice u 8 12 @ ''-'' @ py_slice u 12 14)
        = py_slice u 0 2 @ py_slice u 2 5 @ py_slice u 5 8 @ py_slice u 8 12 @ py_slice u 12 14"
    using assms(1) by (simp only: re_sub_append re_sub_punct re_sub_digits py_slice_digits append_Nil)
  also have "\<dots> = py_slice u 0 (length u)"
    by (simp add: py_slice_join assms(2))
  finally show ?thesis by (simp add: py_slice_all)
qed

lemma CPF_clean_re_sub:
  "re_sub_non_digits s = re_sub_non_digits t \<Longrightarrow> CPF_clean (PyStr s) = CPF_clean (PyStr t)"
  by (simp add: CPF_clean_def)

lemma CNPJ_clean_re_sub:
  "re_sub_non_digits s = re_sub_non_digits t \<Longrightarrow> CNPJ_clean (PyStr s) = CNPJ_clean (PyStr t)"
  by (simp add: CNPJ_clean_def)

lemma CPF_clean_formatted:
  assumes "list_all is_digit u" and "length u = 11"
  shows "CPF_clean (PyStr (py_slice u 0 3 @ ''.'' @ py_slice u 3 6 @ ''.'' @ py_slice u 6 9
           @ ''-'' @ py_slice u 9 11)) = Inr u"
proof -
  have "CPF_clean (PyStr (py_slice u 0 3 @ ''.'' @ py_slice u 3 6 @ ''.'' @ py_slice u 6 9
           @ ''-'' @ py_slice u 9 11)) = CPF_clean (PyStr u)"
    by (rule CPF_clean_re_sub) (simp only: re_sub_CPF_formatted [OF assms] re_sub_digits [OF assms(1)])
  then show ?thesis by (simp only: CPF_clean_digits [OF assms])
qed

lemma CNPJ_clean_formatted:
  assumes "list_all is_digit u" and "length u = 14"
  shows "CNPJ_clean (PyStr (py_slice u 0 2 @ ''.'' @ py_slice u 2 5 @ ''.'' @ py_slice u 5 8
           @ ''/'' @ py_slice u 8 12 @ ''-'' @ py_slice u 12 14)) = Inr u"
proof -
  have "CNPJ_clean (PyStr (py_slice u 0 2 @ ''.'' @ py_slice u 2 5 @ ''.'' @ py_slice u 5 8
           @ ''/'' @ py_slice u 8 12 @ ''-'' @ py_slice u 12 14)) = CNPJ_clean (PyStr u)"
    by (rule CNPJ_clean_re_sub) (simp only: re_sub_CNPJ_formatted [OF assms] re_sub_digits [OF assms(1)])
  then show ?thesis by (simp only: CNPJ_clean_digits [OF assms])
qed

section \<open>Width of the stored digit-string\<close>

lemma dec_upper: "n < 10 ^ length (dec n)"
proof (induction n rule: dec.induct)
  case (1 n)
  show ?case
  proof (cases "n < 10")
    case True
    then show ?thesis by (simp add: dec_small)
  next
    case False
    with 1 have "n div 10 < 10 ^ length (dec (n div 10))" by simp
    then have "n < 10 ^ length (dec (n div 10)) * 10" by (simp add: div_less_iff_less_mult)
    moreover from False have "dec n = dec (n div 10) @ [digit_char (n mod 10)]"
      by (subst dec.simps) simp
    ultimately show ?thesis by (simp add: mult.commute)
  qed
qed

lemma dec_lower: "10 \<le> n \<Longrightarrow> 10 ^ (length (dec n) - 1) \<le> n"
proof (induction n rule: dec.induct)
  case (1 n)
  from 1(2) have d: "dec n = dec (n div 10) @ [digit_char (n mod 10)]"
    by (subst dec.simps) simp
  show ?case
  proof (cases "n div 10 < 10")
    case True
    with 1(2) d show ?thesis by (simp add: dec_small)
  next
    case False
    with 1 have "10 ^ (length (dec (n div 10)) - 1) \<le> n div 10" by simp
    then have "10 ^ (length (dec (n div 10)) - 1) * 10 \<le> n"
      by (simp add: less_eq_div_iff_mult_less_eq)
    moreover have "0 < length (dec (n div 10))" using dec_nonempty [of "n div 10"] by simp
    then have "(10::nat) ^ length (dec (n div 10)) = 10 ^ (length (dec (n div 10)) - 1) * 10"
      by (cases "length (dec (n div 10))") simp_all
    ultimately show ?thesis by (simp add: d)
  qed
qed

lemma length_dec_le_iff:
  assumes "0 < w"
  shows "(length (dec n) \<le> w) = (n < 10 ^ w)"
proof
  assume "length (dec n) \<le> w"
  then have "(10::nat) ^ length (dec n) \<le> 10 ^ w" by (simp add: power_increasing)
  with dec_upper [of n] show "n < 10 ^ w" by (rule less_le_trans)
next
  assume n: "n < 10 ^ w"
  show "length (dec n) \<le> w"
  proof (rule ccontr)
    assume "\<not> length (dec n) \<le> w"
    then have l: "w \<le> length (dec n) - 1" by simp
    with assms have "\<not> n < 10" by (auto simp add: dec_small)
    then have "10 \<le> n" by simp
    then have lo: "10 ^ (length (dec n) - 1) \<le> n" by (rule dec_lower)
    have "(10::nat) ^ w \<le> 10 ^ (length (dec n) - 1)" using l by (rule power_increasing) simp
    then have "10 ^ w \<le> n" using lo by (rule order_trans)
    with n show False by simp
  qed
qed

lemma length_zfill_dec: "0 < w \<Longrightarrow> (length (zfill w (dec n)) = w) = (n < 10 ^ w)"
  using length_dec_le_iff [of w n] by (auto simp add: zfill_length)

lemma re_sub_all_digits: "list_all is_digit (re_sub_non_digits s)"
  by (simp add: re_sub_non_digits_def list_all_iff)

lemma clean_input_number:
  assumes "input_number v = Some n"
  shows "CPF_clean v = Inr (zfill 11 (dec n)) \<and> CNPJ_clean v = Inr (zfill 14 (dec n))"
proof (cases v)
  case PyNone
  with assms show ?thesis by (simp add: input_number_def)
next
  case (PyInt k)
  with assms have "0 \<le> k" and "n = nat k" by (simp_all add: input_number_def split: if_splits)
  with PyInt show ?thesis by (simp add: CPF_clean_def CNPJ_clean_def format_0d_def)
next
  case (PyStr s)
  with assms have r: "re_sub_non_digits s \<noteq> []" and n: "n = digits_value (re_sub_non_digits s)"
    by (simp_all add: input_number_def split: if_splits)
  have "py_int (re_sub_non_digits s) = Inr (int n)"
    using r by (simp add: n py_int_digits re_sub_all_digits)
  with PyStr show ?thesis by (simp add: CPF_clean_def CNPJ_clean_def rbind_Inr format_0d_nat)
qed

text \<open>
  Claim C5 says that the stored digit-string has exactly 11 (\<open>CPF\<close>) or 14 (\<open>CNPJ\<close>)
  characters for every non-negative integer and every text. The width given to \<open>format\<close>
  is a minimum: a number with more digits is stored in full.
\<close>

theorem stored_digit_string_width_counterexample:
  "CPF_init (PyInt 123456789012) = Inr \<lparr>u_cpf = ''123456789012''\<rparr>
   \<and> length (u_cpf \<lparr>u_cpf = ''123456789012''\<rparr>) = 12
   \<and> CNPJ_init (PyStr ''123456789012345'') = Inr \<lparr>u_cnpj = ''123456789012345''\<rparr>
   \<and> length (u_cnpj \<lparr>u_cnpj = ''123456789012345''\<rparr>) = 15"
  by (intro conjI) code_simp+

text \<open>
  Claim C5, amended. For every construction input that denotes a non-negative integer \<open>n\<close>
  (a non-negative integer, or a text holding at least one digit, read as the number its
  digits write), the stored digit-string is the decimal digits of \<open>n\<close> with zeros added on
  the left up to the canonical width; it has exactly 11 (\<open>CPF\<close>) or 14 (\<open>CNPJ\<close>) characters
  if and only if \<open>n < 10^11\<close> (\<open>n < 10^14\<close>).
\<close>

theorem stored_digit_string_width:
  assumes "input_number v = Some n"
  shows "CPF_init v = Inr \<lparr>u_cpf = replicate (11 - length (dec n)) (CHR ''0'') @ dec n\<rparr>
         \<and> CNPJ_init v = Inr \<lparr>u_cnpj = replicate (14 - length (dec n)) (CHR ''0'') @ dec n\<rparr>
         \<and> (length (replicate (11 - length (dec n)) (CHR ''0'') @ dec n) = 11) = (n < 10 ^ 11)
         \<and> (length (replicate (14 - length (dec n)) (CHR ''0'') @ dec n) = 14) = (n < 10 ^ 14)"
proof -
  have a: "CPF_init v = Inr \<lparr>u_cpf = zfill 11 (dec n)\<rparr>"
    using clean_input_number [OF assms] by (simp add: CPF_init_def rbind_Inr)
  have b: "CNPJ_init v = Inr \<lparr>u_cnpj = zfill 14 (dec n)\<rparr>"
    using clean_input_number [OF assms] by (simp add: CNPJ_init_def rbind_Inr)
  have c: "(length (zfill 11 (dec n)) = 11) = (n < 10 ^ 11)" by (rule length_zfill_dec) simp
  have d: "(length (zfill 14 (dec n)) = 14) = (n < 10 ^ 14)" by (rule length_zfill_dec) simp
  from a b c d show ?thesis unfolding zfill_def by blast
qed

theorem stored_digit_string_width_witness:
  "CPF_init (PyInt 191) = Inr \<lparr>u_cpf = ''00000000191''\<rparr>
   \<and> CNPJ_init (PyInt 191) = Inr \<lparr>u_cnpj = ''00000000000191''\<rparr>
   \<and> (191::nat) < 10 ^ 11"
proof -
  have h: "input_number (PyInt 191) = Some 191" by (simp add: input_number_def)
  have d: "dec 191 = ''191''" by code_simp
  have e: "replicate (11 - length ''191'') (CHR ''0'') @ ''191'' = ''00000000191''"
    "replicate (14 - length ''191'') (CHR ''0'') @ ''191'' = ''00000000000191''"
    by code_simp+
  from stored_digit_string_width [OF h] show ?thesis
    unfolding d e by simp
qed

section \<open>Round trip through the formatted text\<close>

lemma digits_value_upper: "list_all is_digit s \<Longrightarrow> digits_value s < 10 ^ length s"
proof (induction s rule: rev_induct)
  case Nil
  then show ?case by (simp add: digits_value_def)
next
  case (snoc c r)
  then have "digits_value r < 10 ^ length r" and "digit_val c < 10"
    by (simp_all add: digit_val_less)
  then have "10 * digits_value r + digit_val c < 10 * 10 ^ length r" by simp
  then show ?case by (simp add: digits_value_snoc)
qed

lemma format_0d_canonical:
  assumes "0 < w" and "n < 10 ^ w"
  shows "length (format_0d w (int n)) = w \<and> list_all is_digit (format_0d w (int n))"
  using assms length_zfill_dec [of w n] zfill_digits [OF dec_digits, of w n]
  by (simp add: format_0d_nat)

lemma format_0d_digits_nonneg:
  assumes "list_all is_digit (format_0d w n)"
  shows "0 \<le> n"
proof (rule ccontr)
  assume "\<not> 0 \<le> n"
  then have "format_0d w n = CHR ''-'' # zfill (w - 1) (dec (nat (- n)))"
    by (simp add: format_0d_def)
  with assms show False by (simp add: not_digit_sign)
qed

lemma clean_of_digits:
  assumes "list_all is_digit r" and "r \<noteq> []"
  shows "\<exists>k. k < 10 ^ length r \<and> py_int (re_sub_non_digits r) = Inr (int k)"
  using assms digits_value_upper [OF assms(1)] by (auto simp add: re_sub_digits py_int_digits)

lemma CPF_round_trip_result:
  assumes "CPF_init v = Inr x"
  shows "\<exists>k. k < 10 ^ 11
           \<and> rbind (CPF_format x ''f'') (\<lambda>s. CPF_clean (PyStr s)) = Inr (format_0d 11 (int k))"
proof -
  obtain n where n: "u_cpf x = format_0d 11 n" using CPF_init_stored [OF assms] by blast
  define c where "c = format_0d 11 \<bar>n\<bar>"
  have cd: "list_all is_digit c"
    unfolding c_def using zfill_digits [OF dec_digits, of 11 "nat \<bar>n\<bar>"] by (simp add: format_0d_def)
  have cl: "11 \<le> length c" unfolding c_def by (rule length_format_0d)
  have f: "CPF_format x ''f'' = Inr (py_slice c 0 3 @ ''.'' @ py_slice c 3 6 @ ''.''
             @ py_slice c 6 9 @ ''-'' @ py_slice c 9 11)"
    unfolding CPF_format_def n CPF_clean_stored rbind_Inr c_def by simp
  have "re_sub_non_digits (py_slice c 0 3 @ ''.'' @ py_slice c 3 6 @ ''.''
             @ py_slice c 6 9 @ ''-'' @ py_slice c 9 11)
        = py_slice c 0 3 @ py_slice c 3 6 @ py_slice c 6 9 @ py_slice c 9 11"
    using cd by (simp only: re_sub_append re_sub_punct re_sub_digits py_slice_digits append_Nil)
  also have "\<dots> = py_slice c 0 11" by (simp add: py_slice_join)
  finally have r: "re_sub_non_digits (py_slice c 0 3 @ ''.'' @ py_slice c 3 6 @ ''.''
             @ py_slice c 6 9 @ ''-'' @ py_slice c 9 11) = py_slice c 0 11" .
  have sd: "list_all is_digit (py_slice c 0 11)" using cd by (rule py_slice_digits)
  have sl: "length (py_slice c 0 11) = 11" using cl by (simp add: py_slice_def)
  then have sn: "py_slice c 0 11 \<noteq> []" by auto
  have "digits_value (py_slice c 0 11) < 10 ^ 11"
    using digits_value_upper [OF sd] by (simp only: sl)
  moreover have "CPF_clean (PyStr (py_slice c 0 3 @ ''.'' @ py_slice c 3 6 @ ''.''
             @ py_slice c 6 9 @ ''-'' @ py_slice c 9 11))
         = Inr (format_0d 11 (int (digits_value (py_slice c 0 11))))"
    unfolding CPF_clean_def pyval.case r py_int_digits [OF sd sn] rbind_Inr ..
  ultimately show ?thesis unfolding f rbind_Inr by blast
qed


lemma CNPJ_round_trip_result:
  assumes "CNPJ_init v = Inr y"
  shows "\<exists>k. k < 10 ^ 14
           \<and> rbind (CNPJ_format y ''f'') (\<lambda>s. CNPJ_clean (PyStr s)) = Inr (format_0d 14 (int k))"
proof -
  obtain n where n: "u_cnpj y = format_0d 14 n" using CNPJ_init_stored [OF assms] by blast
  define c where "c = format_0d 14 \<bar>n\<bar>"
  have cd: "list_all is_digit c"
    unfolding c_def using zfill_digits [OF dec_digits, of 14 "nat \<bar>n\<bar>"] by (simp add: format_0d_def)
  have cl: "14 \<le> length c" unfolding c_def by (rule length_format_0d)
  have f: "CNPJ_format y ''f'' = Inr (py_slice c 0 2 @ ''.'' @ py_slice c 2 5 @ ''.''
             @ py_slice c 5 8 @ ''/'' @ py_slice c 8 12 @ ''-'' @ py_slice c 12 14)"
    unfolding CNPJ_format_def n CNPJ_clean_stored rbind_Inr c_def by simp
  have "re_sub_non_digits (py_slice c 0 2 @ ''.'' @ py_slice c 2 5 @ ''.''
             @ py_slice c 5 8 @ ''/'' @ py_slice c 8 12 @ ''-'' @ py_slice c 12 14)
        = py_slice c 0 2 @ py_slice c 2 5 @ py_slice c 5 8 @ py_slice c 8 12 @ py_slice c 12 14"
    using cd by (simp only: re_sub_append re_sub_punct re_sub_digits py_slice_digits append_Nil)
  also have "\<dots> = py_slice c 0 14" by (simp add: py_slice_join)
  finally have r: "re_sub_non_digits (py_slice c 0 2 @ ''.'' @ py_slice c 2 5 @ ''.''
             @ py_slice c 5 8 @ ''/'' @ py_slice c 8 12 @ ''-'' @ py_slice c 12 14)
           = py_slice c 0 14" .
  have sd: "list_all is_digit (py_slice c 0 14)" using cd by (rule py_slice_digits)
  have sl: "length (py_slice c 0 14) = 14" using cl by (simp add: py_slice_def)
  then have sn: "py_slice c 0 14 \<noteq> []" by auto
  have "digits_value (py_slice c 0 14) < 10 ^ 14"
    using digits_value_upper [OF sd] by (simp only: sl)
  moreover have "CNPJ_clean (PyStr (py_slice c 0 2 @ ''.'' @ py_slice c 2 5 @ ''.''
             @ py_slice c 5 8 @ ''/'' @ py_slice c 8 12 @ ''-'' @ py_slice c 12 14))
         = Inr (format_0d 14 (int (digits_value (py_slice c 0 14))))"
    unfolding CNPJ_clean_def pyval.case r py_int_digits [OF sd sn] rbind_Inr ..
  ultimately show ?thesis unfolding f rbind_Inr by blast
qed

lemma CPF_round_trip_canonical:
  assumes "length (u_cpf x) = 11" and "list_all is_digit (u_cpf x)"
  shows "rbind (CPF_format x ''f'') (\<lambda>s. CPF_clean (PyStr s)) = CPF_format x ''r''"
proof -
  have a: "CPF_clean (PyStr (u_cpf x)) = Inr (u_cpf x)"
    using assms by (simp add: CPF_clean_digits)
  have "CPF_format x ''f'' = Inr (py_slice (u_cpf x) 0 3 @ ''.'' @ py_slice (u_cpf x) 3 6 @ ''.''
          @ py_slice (u_cpf x) 6 9 @ ''-'' @ py_slice (u_cpf x) 9 11)"
    unfolding CPF_format_def a rbind_Inr by simp
  then have "rbind (CPF_format x ''f'') (\<lambda>s. CPF_clean (PyStr s)) = Inr (u_cpf x)"
    by (simp only: rbind_Inr CPF_clean_formatted [OF assms(2,1)])
  then show ?thesis by (simp add: CPF_format_def)
qed

lemma CNPJ_round_trip_canonical:
  assumes "length (u_cnpj y) = 14" and "list_all is_digit (u_cnpj y)"
  shows "rbind (CNPJ_format y ''f'') (\<lambda>s. CNPJ_clean (PyStr s)) = CNPJ_format y ''r''"
proof -
  have b: "CNPJ_clean (PyStr (u_cnpj y)) = Inr (u_cnpj y)"
    using assms by (simp add: CNPJ_clean_digits)
  have "CNPJ_format y ''f'' = Inr (py_slice (u_cnpj y) 0 2 @ ''.'' @ py_slice (u_cnpj y) 2 5 @ ''.''
          @ py_slice (u_cnpj y) 5 8 @ ''/'' @ py_slice (u_cnpj y) 8 12 @ ''-''
          @ py_slice (u_cnpj y) 12 14)"
    unfolding CNPJ_format_def b rbind_Inr by simp
  then have "rbind (CNPJ_format y ''f'') (\<lambda>s. CNPJ_clean (PyStr s)) = Inr (u_cnpj y)"
    by (simp only: rbind_Inr CNPJ_clean_formatted [OF assms(2,1)])
  then show ?thesis by (simp add: CNPJ_format_def)
qed

lemma format_r: "CPF_format x ''r'' = Inr (u_cpf x)" "CNPJ_format y ''r'' = Inr (u_cnpj y)"
  by (simp_all add: CPF_format_def CNPJ_format_def)

text \<open>
  Claim C4 says that \<open>clean(x.format('f'))\<close> equals \<open>x.format('r')\<close> for every constructed
  value. It fails for a value built from an integer of more than 11 digits: the stored text
  keeps all 12 digits, the formatted text shows the first 11 only.
\<close>

theorem clean_format_round_trip_counterexample:
  "CPF_init (PyInt 123456789012) = Inr \<lparr>u_cpf = ''123456789012''\<rparr>
   \<and> CPF_format \<lparr>u_cpf = ''123456789012''\<rparr> ''f'' = Inr ''123.456.789-01''
   \<and> CPF_clean (PyStr ''123.456.789-01'') = Inr ''12345678901''
   \<and> CPF_format \<lparr>u_cpf = ''123456789012''\<rparr> ''r'' = Inr ''123456789012''
   \<and> ''12345678901'' \<noteq> ''123456789012''"
  by (intro conjI) code_simp+

text \<open>
  Claim C4, amended. For every constructed value \<open>x\<close> (\<open>CPF\<close> or \<open>CNPJ\<close>),
  \<open>clean(x.format('f'))\<close> equals \<open>x.format('r')\<close> if and only if the stored text of \<open>x\<close>
  has exactly the canonical width (11 or 14) and holds decimal digits only: the round trip
  holds for the values built from an integer \<open>n\<close> with \<open>0 \<le> n < 10^width\<close> or from a text
  whose digits write such an \<open>n\<close>, and for no other.
\<close>

theorem clean_format_round_trip:
  assumes "CPF_init v = Inr x" and "CNPJ_init v' = Inr y"
  shows "((rbind (CPF_format x ''f'') (\<lambda>s. CPF_clean (PyStr s)) = CPF_format x ''r'')
            = (length (u_cpf x) = 11 \<and> list_all is_digit (u_cpf x)))
         \<and> ((rbind (CNPJ_format y ''f'') (\<lambda>s. CNPJ_clean (PyStr s)) = CNPJ_format y ''r'')
            = (length (u_cnpj y) = 14 \<and> list_all is_digit (u_cnpj y)))"
proof -
  have cpf: "(rbind (CPF_format x ''f'') (\<lambda>s. CPF_clean (PyStr s)) = CPF_format x ''r'')
            = (length (u_cpf x) = 11 \<and> list_all is_digit (u_cpf x))"
  proof
    assume e: "rbind (CPF_format x ''f'') (\<lambda>s. CPF_clean (PyStr s)) = CPF_format x ''r''"
    obtain k where k: "k < 10 ^ 11"
      and r: "rbind (CPF_format x ''f'') (\<lambda>s. CPF_clean (PyStr s)) = Inr (format_0d 11 (int k))"
      using CPF_round_trip_result [OF assms(1)] by blast
    from e r have "u_cpf x = format_0d 11 (int k)" by (simp add: format_r)
    with format_0d_canonical [OF _ k]
    show "length (u_cpf x) = 11 \<and> list_all is_digit (u_cpf x)" by simp
  next
    assume "length (u_cpf x) = 11 \<and> list_all is_digit (u_cpf x)"
    then show "rbind (CPF_format x ''f'') (\<lambda>s. CPF_clean (PyStr s)) = CPF_format x ''r''"
      by (simp add: CPF_round_trip_canonical)
  qed
  have cnpj: "(rbind (CNPJ_format y ''f'') (\<lambda>s. CNPJ_clean (PyStr s)) = CNPJ_format y ''r'')
            = (length (u_cnpj y) = 14 \<and> list_all is_digit (u_cnpj y))"
  proof
    assume e: "rbind (CNPJ_format y ''f'') (\<lambda>s. CNPJ_clean (PyStr s)) = CNPJ_format y ''r''"
    obtain k where k: "k < 10 ^ 14"
      and r: "rbind (CNPJ_format y ''f'') (\<lambda>s. CNPJ_clean (PyStr s)) = Inr (format_0d 14 (int k))"
      using CNPJ_round_trip_result [OF assms(2)] by blast
    from e r have "u_cnpj y = format_0d 14 (int k)" by (simp add: format_r)
    with format_0d_canonical [OF _ k]
    show "length (u_cnpj y) = 14 \<and> list_all is_digit (u_cnpj y)" by simp
  next
    assume "length (u_cnpj y) = 14 \<and> list_all is_digit (u_cnpj y)"
    then show "rbind (CNPJ_format y ''f'') (\<lambda>s. CNPJ_clean (PyStr s)) = CNPJ_format y ''r''"
      by (simp add: CNPJ_round_trip_canonical)
  qed
  from cpf cnpj show ?thesis by (rule conjI)
qed

theorem clean_format_round_trip_witness:
  "rbind (CPF_format \<lparr>u_cpf = ''58119443659''\<rparr> ''f'') (\<lambda>s. CPF_clean (PyStr s))
       = CPF_format \<lparr>u_cpf = ''58119443659''\<rparr> ''r''
   \<and> rbind (CNPJ_format \<lparr>u_cnpj = ''58414462000135''\<rparr> ''f'') (\<lambda>s. CNPJ_clean (PyStr s))
       = CNPJ_format \<lparr>u_cnpj = ''58414462000135''\<rparr> ''r''"
proof -
  have h1: "CPF_init (PyStr ''581.194.436-59'') = Inr \<lparr>u_cpf = ''58119443659''\<rparr>" by code_simp
  have h2: "CNPJ_init (PyInt 58414462000135) = Inr \<lparr>u_cnpj = ''58414462000135''\<rparr>" by code_simp
  have d1: "list_all is_digit ''58119443659''" by (simp add: is_digit_def)
  have d2: "list_all is_digit ''58414462000135''" by (simp add: is_digit_def)
  from clean_format_round_trip [OF h1 h2] d1 d2 show ?thesis by simp
qed

end
